theory Spec2Isabelle
  imports Main
begin

section \<open>Data model of \<^verbatim>\<open>deps.py\<close>\<close>

text \<open>
  Python objects that the code only stores, hashes, compares and passes on (type objects
  such as \<^verbatim>\<open>int\<close>, functions such as \<^verbatim>\<open>make_b\<close>, annotations) are opaque:
  an object is known by its name. \<^verbatim>\<open>inspect.Parameter.empty\<close> is the one object the
  signature machinery itself produces, for a missing annotation and for a missing default.
\<close>

datatype pyobj = Parameter_empty | Obj string

text \<open>
  \<^verbatim>\<open>class Dependency(typing.Generic[T], RecordBase)\<close> with the fields
  \<^verbatim>\<open>factory\<close> and \<^verbatim>\<open>type\<close>. Construction validates nothing, so both
  fields hold arbitrary objects. Instances are taken as fully initialised (both slots set).
\<close>

record dependency =
  factory :: pyobj
  type :: pyobj

text \<open>
  \<^verbatim>\<open>class Node(typing.Generic[T], metaclass=RecordType)\<close> with the fields
  \<^verbatim>\<open>name\<close> and \<^verbatim>\<open>dependency_type\<close>. The class defines neither
  \<^verbatim>\<open>__eq__\<close> nor \<^verbatim>\<open>__hash__\<close>, so sets and the \<^verbatim>\<open>is\<close> test
  tell nodes apart by object identity: \<open>node_id\<close> is that identity (the address of
  the object). Two nodes built from the same field values are two values that differ in
  \<open>node_id\<close>; equality of the model is \<^verbatim>\<open>is\<close> of the source.
\<close>

record node =
  node_id :: nat
  name :: string
  dependency_type :: dependency

datatype error = KeyError | AssertionError | ValueError | TypeError

text \<open>
  The three attributes of a \<^verbatim>\<open>DepGraph\<close>. \<^verbatim>\<open>type_index\<close> is a
  \<^verbatim>\<open>defaultdict(set)\<close>, \<^verbatim>\<open>name_index\<close> a dict, \<^verbatim>\<open>relationships\<close>
  a set of pairs.
\<close>

record DepGraph =
  type_index :: "pyobj \<rightharpoonup> node set"
  name_index :: "string \<rightharpoonup> node"
  relationships :: "(node \<times> node) set"

text \<open>\<^verbatim>\<open>DepGraph.__init__\<close>\<close>

definition DepGraph_init :: DepGraph where
  "DepGraph_init = \<lparr>type_index = Map.empty, name_index = Map.empty, relationships = {}\<rparr>"

section \<open>Mutations\<close>

text \<open>
  The first statement of \<^verbatim>\<open>add_node\<close>:
  \<^verbatim>\<open>
  if dep.name not in self.name_index:
      self.type_index[dep.dependency_type.type].add(dep)
      self.name_index[dep.name] = dep
  else:
      ...
  \<close>
  Reading a missing key of the \<^verbatim>\<open>defaultdict\<close> stores and returns a new empty set.
\<close>

definition register_node :: "node \<Rightarrow> DepGraph \<Rightarrow> DepGraph" where
  "register_node dep g =
     (if name_index g (name dep) = None
      then (let t = type (dependency_type dep);
                s = (case type_index g t of None \<Rightarrow> {} | Some s \<Rightarrow> s)
            in g\<lparr>type_index := (type_index g)(t \<mapsto> insert dep s),
                 name_index := (name_index g)(name dep \<mapsto> dep)\<rparr>)
      else g)"

text \<open>\<^verbatim>\<open>self.relationships.add((a, b))\<close>\<close>

definition add_edge :: "node \<Rightarrow> node \<Rightarrow> DepGraph \<Rightarrow> DepGraph" where
  "add_edge a b g = g\<lparr>relationships := insert (a, b) (relationships g)\<rparr>"

text \<open>
  \<^verbatim>\<open>add_node(self, dep, dependencies=None)\<close>. The argument \<open>dependencies\<close> is
  \<open>None\<close> for the default and otherwise the elements of the given set in the order
  the \<^verbatim>\<open>for\<close> loop meets them. \<^verbatim>\<open>if dependencies:\<close> is false for
  \<^verbatim>\<open>None\<close> and for an empty set. The call \<^verbatim>\<open>self.add_node(d)\<close> in the loop is
  the recursive call with the default argument. The method raises nowhere and returns
  nothing, so the model returns the graph.
\<close>

fun add_node :: "node \<Rightarrow> node list option \<Rightarrow> DepGraph \<Rightarrow> DepGraph" where
  "add_node dep None g = register_node dep g"
| "add_node dep (Some ds) g =
     (let g1 = register_node dep g
      in if ds \<noteq> []
         then fold (\<lambda>d g'. add_edge dep d (add_node d None g')) ds g1
         else g1)"

text \<open>
  \<^verbatim>\<open>add_dependencies(self, name, dependencies)\<close>: the lookup
  \<^verbatim>\<open>self.name_index[name]\<close> raises \<^verbatim>\<open>KeyError\<close> before the loop starts.
  A method that may raise returns its outcome together with the graph it leaves behind.
\<close>

definition add_dependencies :: "string \<Rightarrow> node list \<Rightarrow> DepGraph \<Rightarrow> (error + unit) \<times> DepGraph" where
  "add_dependencies nm ds g =
     (case name_index g nm of
        None \<Rightarrow> (Inl KeyError, g)
      | Some n \<Rightarrow> (Inr (), fold (\<lambda>d g'. add_edge n d g') ds g))"

text \<open>
  \<^verbatim>\<open>add_relationship(self, dependent, dependence)\<close>: two \<^verbatim>\<open>assert\<close>
  statements (assertions enabled), then one \<^verbatim>\<open>relationships.add\<close>.
\<close>

definition add_relationship :: "string \<Rightarrow> string \<Rightarrow> DepGraph \<Rightarrow> (error + unit) \<times> DepGraph" where
  "add_relationship dependent dependence g =
     (case name_index g dependent of
        None \<Rightarrow> (Inl AssertionError, g)
      | Some a \<Rightarrow>
          (case name_index g dependence of
             None \<Rightarrow> (Inl AssertionError, g)
           | Some b \<Rightarrow> (Inr (), add_edge a b g)))"

section \<open>Queries\<close>

definition get_by_name :: "string \<Rightarrow> DepGraph \<Rightarrow> (error + node) \<times> DepGraph" where
  "get_by_name nm g =
     (case name_index g nm of
        None \<Rightarrow> (Inl KeyError, g)
      | Some n \<Rightarrow> (Inr n, g))"

text \<open>
  \<^verbatim>\<open>set(dt for dt, dc in self.relationships if dc is node)\<close> and its mirror image.
\<close>

definition get_dependents :: "string \<Rightarrow> DepGraph \<Rightarrow> (error + node set) \<times> DepGraph" where
  "get_dependents nm g =
     (case name_index g nm of
        None \<Rightarrow> (Inl KeyError, g)
      | Some n \<Rightarrow> (Inr (fst ` {e \<in> relationships g. snd e = n}), g))"

definition get_dependencies :: "string \<Rightarrow> DepGraph \<Rightarrow> (error + node set) \<times> DepGraph" where
  "get_dependencies nm g =
     (case name_index g nm of
        None \<Rightarrow> (Inl KeyError, g)
      | Some n \<Rightarrow> (Inr (snd ` {e \<in> relationships g. fst e = n}), g))"

section \<open>Sequences of calls\<close>

text \<open>
  One call of a public method of \<^verbatim>\<open>DepGraph\<close>, and the graph after it, whether the
  call returned or raised.
\<close>

datatype call =
    Add_node node "node list option"
  | Add_dependencies string "node list"
  | Add_relationship string string
  | Get_by_name string
  | Get_dependents string
  | Get_dependencies string

fun after :: "call \<Rightarrow> DepGraph \<Rightarrow> DepGraph" where
  "after (Add_node dep dependencies) g = add_node dep dependencies g"
| "after (Add_dependencies nm ds) g = snd (add_dependencies nm ds g)"
| "after (Add_relationship a b) g = snd (add_relationship a b g)"
| "after (Get_by_name nm) g = snd (get_by_name nm g)"
| "after (Get_dependents nm) g = snd (get_dependents nm g)"
| "after (Get_dependencies nm) g = snd (get_dependencies nm g)"

definition run :: "call list \<Rightarrow> DepGraph" where
  "run cs = fold after cs DepGraph_init"

section \<open>Extraction\<close>

text \<open>
  What \<^verbatim>\<open>extract_dependencies\<close> reads of a parameter of the signature: its
  annotation, and its default, which is either an instance of \<^verbatim>\<open>Dependency\<close>
  (the \<^verbatim>\<open>isinstance\<close> test) or any other object
  (\<^verbatim>\<open>inspect.Parameter.empty\<close> when the parameter has no default).
\<close>

datatype default_value = Dependency_instance dependency | Other pyobj

record parameter =
  annotation :: pyobj
  default :: default_value

text \<open>
  What \<^verbatim>\<open>extract_dependencies\<close> reads of its argument: the attribute
  \<^verbatim>\<open>__dependencies__\<close> (\<open>None\<close> when \<^verbatim>\<open>hasattr\<close> is false), and
  the outcome of \<^verbatim>\<open>inspect.signature\<close>, which raises \<^verbatim>\<open>TypeError\<close> or
  \<^verbatim>\<open>ValueError\<close> for an object it cannot introspect and otherwise gives the
  parameters in order, under distinct names. Dicts are association lists in insertion order.
\<close>

record callable =
  dependencies_attr :: "(string \<times> dependency) list option"
  signature :: "error + (string \<times> parameter) list"

definition extract_dependencies :: "callable \<Rightarrow> error + (string \<times> dependency) list" where
  "extract_dependencies dependent =
     (case dependencies_attr dependent of
        Some m \<Rightarrow> Inr m
      | None \<Rightarrow>
          (case signature dependent of
             Inl e \<Rightarrow> Inl e
           | Inr ps \<Rightarrow>
               Inr (map (\<lambda>(p_name, p).
                      (p_name,
                       \<lparr>factory = (case default p of
                                     Dependency_instance d \<Rightarrow> factory d
                                   | Other _ \<Rightarrow> annotation p),
                        type = annotation p\<rparr>)) ps)))"

section \<open>Example objects\<close>

definition int_dep :: dependency where
  "int_dep = \<lparr>factory = Obj ''int'', type = Obj ''int''\<rparr>"

definition node_a1 :: node where
  "node_a1 = \<lparr>node_id = 1, name = ''a'', dependency_type = int_dep\<rparr>"

definition node_a2 :: node where
  "node_a2 = \<lparr>node_id = 2, name = ''a'', dependency_type = int_dep\<rparr>"

definition node_b :: node where
  "node_b = \<lparr>node_id = 3, name = ''b'', dependency_type = int_dep\<rparr>"

definition node_c :: node where
  "node_c = \<lparr>node_id = 4, name = ''c'', dependency_type = int_dep\<rparr>"

definition graph_ab :: DepGraph where
  "graph_ab = run [Add_node node_a1 (Some [node_b])]"

definition example_callable :: callable where
  "example_callable =
     \<lparr>dependencies_attr = None,
      signature = Inr [(''a'', \<lparr>annotation = Obj ''int'', default = Other Parameter_empty\<rparr>),
                       (''b'', \<lparr>annotation = Obj ''int'',
                                default = Dependency_instance
                                            \<lparr>factory = Obj ''make_b'', type = Obj ''int''\<rparr>\<rparr>)]\<rparr>"

definition unannotated_callable :: callable where
  "unannotated_callable =
     \<lparr>dependencies_attr = None,
      signature = Inr [(''x'', \<lparr>annotation = Parameter_empty, default = Other (Obj ''3'')\<rparr>)]\<rparr>"

definition declared_callable :: callable where
  "declared_callable =
     \<lparr>dependencies_attr = Some [(''a'', int_dep)],
      signature = Inl ValueError\<rparr>"

section \<open>The invariant of the two indexes\<close>

text \<open>
  The comment in \<^verbatim>\<open>__init__\<close>:
  \<^verbatim>\<open>set.union(*self.type_index.values()) == set(self.name_index.values())\<close>,
  read as an equation of sets (the union of no sets is empty).
\<close>

definition index_symmetry :: "DepGraph \<Rightarrow> bool" where
  "index_symmetry g = (\<Union> (ran (type_index g)) = ran (name_index g))"

section \<open>Edges between registered nodes\<close>

text \<open>
  \<open>own_names\<close>: every node of \<open>name_index\<close> is stored under its own name.
  \<open>no_dangling\<close>: both ends of every pair of \<open>relationships\<close> are values of
  \<open>name_index\<close>. \<open>clash_free\<close>: the nodes a call of \<^verbatim>\<open>add_node\<close> passes,
  together with the registered ones, have pairwise different names, and the nodes a call of
  \<^verbatim>\<open>add_dependencies\<close> passes are registered. \<open>clash_free_run\<close>: every call of a
  list is clash-free in the graph it meets.
\<close>

definition own_names :: "DepGraph \<Rightarrow> bool" where
  "own_names g = (\<forall>x v. name_index g x = Some v \<longrightarrow> name v = x)"

definition no_dangling :: "DepGraph \<Rightarrow> bool" where
  "no_dangling g =
     (\<forall>(a, b) \<in> relationships g. a \<in> ran (name_index g) \<and> b \<in> ran (name_index g))"

fun clash_free :: "call \<Rightarrow> DepGraph \<Rightarrow> bool" where
  "clash_free (Add_node dep dependencies) g =
     inj_on name (ran (name_index g) \<union> insert dep (set (case dependencies of None \<Rightarrow> [] | Some ds \<Rightarrow> ds)))"
| "clash_free (Add_dependencies nm ds) g = (set ds \<subseteq> ran (name_index g))"
| "clash_free _ g = True"

fun clash_free_run :: "call list \<Rightarrow> DepGraph \<Rightarrow> bool" where
  "clash_free_run [] g = True"
| "clash_free_run (c # cs) g = (clash_free c g \<and> clash_free_run cs (after c g))"

section \<open>Index symmetry\<close>

lemma Union_ran_iff: "y \<in> \<Union> (ran m) \<longleftrightarrow> (\<exists>k S. m k = Some S \<and> y \<in> S)"
  by (auto simp: ran_def)

lemma Union_ran_upd:
  "\<Union> (ran (m(t \<mapsto> insert x (case m t of None \<Rightarrow> {} | Some s \<Rightarrow> s)))) = insert x (\<Union> (ran m))"
proof (cases "m t")
  case None
  then show ?thesis by simp
next
  case (Some s)
  show ?thesis
  proof (rule set_eqI)
    fix y
    have "y \<in> \<Union> (ran (m(t \<mapsto> insert x s))) \<longleftrightarrow>
          y \<in> insert x s \<or> (\<exists>k S. k \<noteq> t \<and> m k = Some S \<and> y \<in> S)"
      unfolding Union_ran_iff by (auto split: if_splits)
    also have "\<dots> \<longleftrightarrow> y = x \<or> (\<exists>k S. m k = Some S \<and> y \<in> S)"
      using Some by (metis insert_iff option.inject)
    also have "\<dots> \<longleftrightarrow> y \<in> insert x (\<Union> (ran m))"
      using Union_ran_iff [of y m] by simp
    finally show "y \<in> \<Union> (ran (m(t \<mapsto> insert x (case m t of None \<Rightarrow> {} | Some s \<Rightarrow> s))))
        \<longleftrightarrow> y \<in> insert x (\<Union> (ran m))"
      using Some by simp
  qed
qed

lemma register_node_symmetry: "index_symmetry g \<Longrightarrow> index_symmetry (register_node dep g)"
  unfolding index_symmetry_def register_node_def
  by (simp add: Let_def Union_ran_upd del: Union_iff)

lemma add_edge_symmetry: "index_symmetry (add_edge a b g) = index_symmetry g"
  by (simp add: index_symmetry_def add_edge_def)

lemma add_node_loop_symmetry:
  "index_symmetry g \<Longrightarrow> index_symmetry (fold (\<lambda>d g'. add_edge dep d (register_node d g')) ds g)"
  by (induction ds arbitrary: g) (simp_all add: add_edge_symmetry register_node_symmetry)

lemma add_node_symmetry: "index_symmetry g \<Longrightarrow> index_symmetry (add_node dep deps g)"
  by (cases deps) (simp_all add: Let_def add_node_loop_symmetry register_node_symmetry)

lemma add_edges_symmetry:
  "index_symmetry (fold (\<lambda>d g'. add_edge n d g') ds g) = index_symmetry g"
  by (induction ds arbitrary: g) (simp_all add: add_edge_symmetry)

lemma after_symmetry: "index_symmetry g \<Longrightarrow> index_symmetry (after c g)"
  by (cases c)
     (simp_all add: add_node_symmetry add_dependencies_def add_relationship_def get_by_name_def
        get_dependents_def get_dependencies_def add_edges_symmetry add_edge_symmetry
        split: option.splits)

lemma fold_after_symmetry: "index_symmetry g \<Longrightarrow> index_symmetry (fold after cs g)"
  by (induction cs arbitrary: g) (simp_all add: after_symmetry)

text \<open>
  Claim C3. After any sequence of calls of the public methods on a new graph, the union of
  the node sets stored in \<open>type_index\<close> is the set of values of \<open>name_index\<close>.
  \<open>run cs\<close> is the graph after the calls \<open>cs\<close>, in order, on a new graph.
\<close>

theorem index_symmetry_run: "\<Union> (ran (type_index (run cs))) = ran (name_index (run cs))"
proof -
  have "index_symmetry DepGraph_init"
    by (simp add: index_symmetry_def DepGraph_init_def)
  then have "index_symmetry (run cs)"
    unfolding run_def by (rule fold_after_symmetry)
  then show ?thesis by (simp add: index_symmetry_def)
qed

section \<open>Registration\<close>

lemma graph_ab_name_index:
  "name_index graph_ab = [''a'' \<mapsto> node_a1, ''b'' \<mapsto> node_b]"
  by (simp add: graph_ab_def run_def register_node_def add_edge_def DepGraph_init_def
        node_a1_def node_b_def Let_def)

text \<open>
  Claim C2. When the name of \<open>n\<close> is already a key of \<open>name_index\<close>, the call
  \<^verbatim>\<open>add_node(n)\<close> without dependencies changes neither index (it changes nothing at
  all), and the name still refers to the node registered first.
\<close>

theorem add_node_registered_name:
  "name_index g (name n) = Some m \<Longrightarrow>
     name_index (add_node n None g) = name_index g
   \<and> type_index (add_node n None g) = type_index g
   \<and> name_index (add_node n None g) (name n) = Some m
   \<and> add_node n None g = g"
  by (simp add: register_node_def)

text \<open>Claim C2 at a graph where \<^verbatim>\<open>"a"\<close> is taken: a second node of that name is not registered.\<close>

theorem add_node_registered_name_witness:
  "name_index graph_ab (name node_a2) = Some node_a1
   \<and> name_index (add_node node_a2 None graph_ab) (name node_a2) = Some node_a1
   \<and> add_node node_a2 None graph_ab = graph_ab"
proof -
  have h: "name_index graph_ab (name node_a2) = Some node_a1"
    by (simp add: graph_ab_name_index node_a2_def)
  from add_node_registered_name [OF h] h show ?thesis by blast
qed

section \<open>Edges of \<^verbatim>\<open>add_node\<close>\<close>

lemma register_node_relationships: "relationships (register_node d g) = relationships g"
  by (simp add: register_node_def Let_def)

lemma add_node_loop_relationships:
  "relationships (fold (\<lambda>d g'. add_edge dep d (register_node d g')) ds g)
     = relationships g \<union> Pair dep ` set ds"
  by (induction ds arbitrary: g) (auto simp: add_edge_def register_node_relationships)

lemma register_node_keeps:
  "name_index g x = Some v \<Longrightarrow> name_index (register_node d g) x = Some v"
  by (auto simp: register_node_def Let_def)

lemma add_node_loop_keeps:
  "name_index g x = Some v \<Longrightarrow>
   name_index (fold (\<lambda>d g'. add_edge dep d (register_node d g')) ds g) x = Some v"
  by (induction ds arbitrary: g) (simp_all add: add_edge_def register_node_keeps)

lemma register_node_named:
  assumes "\<And>x v. name_index g x = Some v \<Longrightarrow> name v = x \<and> v \<in> A" and "d \<in> A"
    and "name_index (register_node d g) x = Some v"
  shows "name v = x \<and> v \<in> A"
  using assms by (auto simp: register_node_def Let_def split: if_splits)

lemma register_node_registers:
  assumes "\<And>x v. name_index g x = Some v \<Longrightarrow> name v = x \<and> v \<in> A" and "d \<in> A"
    and "inj_on name A"
  shows "name_index (register_node d g) (name d) = Some d"
proof (cases "name_index g (name d)")
  case None
  then show ?thesis by (simp add: register_node_def Let_def)
next
  case (Some v)
  with assms(1) have "name v = name d" "v \<in> A" by auto
  with assms(2,3) have "v = d" by (auto dest: inj_onD)
  with Some show ?thesis by (simp add: register_node_def)
qed

lemma add_node_loop_registers:
  assumes "inj_on name A" and "set ds \<subseteq> A"
    and "\<And>x v. name_index g x = Some v \<Longrightarrow> name v = x \<and> v \<in> A" and "d \<in> set ds"
  shows "name_index (fold (\<lambda>d g'. add_edge dep d (register_node d g')) ds g) (name d) = Some d"
  using assms(2-)
proof (induction ds arbitrary: g)
  case Nil
  then show ?case by simp
next
  case (Cons d' ds)
  let ?g' = "add_edge dep d' (register_node d' g)"
  have d': "d' \<in> A" using Cons.prems(1) by simp
  have named: "\<And>x v. name_index ?g' x = Some v \<Longrightarrow> name v = x \<and> v \<in> A"
    using register_node_named [OF Cons.prems(2) d'] by (simp add: add_edge_def)
  show ?case
  proof (cases "d = d'")
    case True
    have "name_index ?g' (name d') = Some d'"
      using register_node_registers [OF Cons.prems(2) d' assms(1)] by (simp add: add_edge_def)
    then show ?thesis using True by (simp add: add_node_loop_keeps)
  next
    case False
    with Cons.prems(3) have "d \<in> set ds" by simp
    moreover have "set ds \<subseteq> A" using Cons.prems(1) by simp
    ultimately show ?thesis using Cons.IH [of ?g'] named by simp
  qed
qed

text \<open>
  Claim C1, at a failing input. A node named \<^verbatim>\<open>"a"\<close> is registered; then
  \<^verbatim>\<open>add_node\<close> is called with a second node object of the same name and one
  dependency. Both calls return. The second node is not registered (the first registration
  wins), and yet the edge that starts at it is added: \<open>relationships\<close> holds a pair whose
  first element is no value of \<open>name_index\<close>.
\<close>

theorem add_node_dangling_edge:
  "(node_a2, node_b) \<in> relationships (run [Add_node node_a1 None, Add_node node_a2 (Some [node_b])])
   \<and> node_a2 \<notin> ran (name_index (run [Add_node node_a1 None, Add_node node_a2 (Some [node_b])]))"
  by (simp add: run_def register_node_def add_edge_def DepGraph_init_def
        node_a1_def node_a2_def node_b_def ran_def)

text \<open>
  Claim C4, as amended. When any two of \<open>n\<close>, \<open>d1\<close>, \<open>d2\<close> that are different
  objects have different names, \<^verbatim>\<open>add_node(n, dependencies={d1, d2})\<close> on a new graph
  makes each of the three retrievable by \<^verbatim>\<open>get_by_name\<close> under its own name, and
  \<^verbatim>\<open>get_dependencies(n.name)\<close> returns exactly \<open>{d1, d2}\<close>. \<open>ds\<close> is the set
  \<open>{d1, d2}\<close> in the order the loop meets it, whichever that is.
\<close>

theorem add_node_transitive_registration:
  assumes "set ds = {d1, d2}" and "inj_on name {n, d1, d2}"
  shows "let g = add_node n (Some ds) DepGraph_init
         in get_by_name (name n) g = (Inr n, g)
          \<and> get_by_name (name d1) g = (Inr d1, g)
          \<and> get_by_name (name d2) g = (Inr d2, g)
          \<and> get_dependencies (name n) g = (Inr {d1, d2}, g)"
proof -
  let ?g1 = "register_node n DepGraph_init"
  let ?g = "fold (\<lambda>d g'. add_edge n d (register_node d g')) ds ?g1"
  have ne: "ds \<noteq> []" using assms(1) by auto
  have g: "add_node n (Some ds) DepGraph_init = ?g" using ne by (simp add: Let_def)
  have sub: "set ds \<subseteq> {n, d1, d2}" using assms(1) by auto
  have named: "\<And>x v. name_index ?g1 x = Some v \<Longrightarrow> name v = x \<and> v \<in> {n, d1, d2}"
    by (auto simp: register_node_def DepGraph_init_def Let_def split: if_splits)
  have n: "name_index ?g (name n) = Some n"
    by (rule add_node_loop_keeps) (simp add: register_node_def DepGraph_init_def Let_def)
  have d1: "name_index ?g (name d1) = Some d1"
    by (rule add_node_loop_registers [OF assms(2) sub named]) (simp_all add: assms(1))
  have d2: "name_index ?g (name d2) = Some d2"
    by (rule add_node_loop_registers [OF assms(2) sub named]) (simp_all add: assms(1))
  have rel: "relationships ?g = Pair n ` {d1, d2}"
    by (simp add: add_node_loop_relationships register_node_relationships assms(1) DepGraph_init_def)
  have deps: "snd ` {e \<in> relationships ?g. fst e = n} = {d1, d2}"
    unfolding rel by force
  show ?thesis
    unfolding g Let_def get_by_name_def get_dependencies_def
    by (simp add: n d1 d2 deps)
qed

text \<open>
  Claim C4 as stated fails when a dependency has the name of the node: the dependency is
  not registered, and \<^verbatim>\<open>get_by_name\<close> under its name returns the other node. This
  holds in either order of the loop.
\<close>

theorem add_node_name_clash_counterexample:
  "\<not> (let g = add_node node_a1 (Some [node_a2, node_b]) DepGraph_init
       in get_by_name (name node_a1) g = (Inr node_a1, g)
        \<and> get_by_name (name node_a2) g = (Inr node_a2, g)
        \<and> get_by_name (name node_b) g = (Inr node_b, g)
        \<and> get_dependencies (name node_a1) g = (Inr {node_a2, node_b}, g))
   \<and> \<not> (let g = add_node node_a1 (Some [node_b, node_a2]) DepGraph_init
       in get_by_name (name node_a1) g = (Inr node_a1, g)
        \<and> get_by_name (name node_a2) g = (Inr node_a2, g)
        \<and> get_by_name (name node_b) g = (Inr node_b, g)
        \<and> get_dependencies (name node_a1) g = (Inr {node_a2, node_b}, g))"
  by (simp add: Let_def get_by_name_def register_node_def add_edge_def DepGraph_init_def
        node_a1_def node_a2_def node_b_def)

text \<open>Claim C4 as amended, at three nodes named \<^verbatim>\<open>"a"\<close>, \<^verbatim>\<open>"b"\<close> and \<^verbatim>\<open>"c"\<close>.\<close>

theorem add_node_transitive_registration_witness:
  "set [node_b, node_c] = {node_b, node_c} \<and> inj_on name {node_a1, node_b, node_c}
   \<and> (let g = add_node node_a1 (Some [node_b, node_c]) DepGraph_init
         in get_by_name (name node_a1) g = (Inr node_a1, g)
          \<and> get_by_name (name node_b) g = (Inr node_b, g)
          \<and> get_by_name (name node_c) g = (Inr node_c, g)
          \<and> get_dependencies (name node_a1) g = (Inr {node_b, node_c}, g))"
proof -
  have s: "set [node_b, node_c] = {node_b, node_c}" by simp
  have i: "inj_on name {node_a1, node_b, node_c}"
    by (simp add: node_a1_def node_b_def node_c_def)
  from add_node_transitive_registration [OF s i] s i show ?thesis by blast
qed

section \<open>No dangling edges, when names do not clash\<close>

text \<open>
  After a clash-free list of calls on a new graph, both ends of every edge are registered.
  Without the hypothesis this fails: see the evaluation of two calls of
  \<^verbatim>\<open>add_node\<close> on nodes of one name, above.
\<close>

lemma register_node_own_names: "own_names g \<Longrightarrow> own_names (register_node d g)"
  by (auto simp: own_names_def register_node_def Let_def)

lemma add_edge_own_names: "own_names (add_edge a b g) = own_names g"
  by (simp add: own_names_def add_edge_def)

lemma add_node_loop_own_names:
  "own_names g \<Longrightarrow> own_names (fold (\<lambda>d g'. add_edge dep d (register_node d g')) ds g)"
  by (induction ds arbitrary: g) (simp_all add: register_node_own_names add_edge_own_names)

lemma add_node_own_names: "own_names g \<Longrightarrow> own_names (add_node dep deps g)"
  by (cases deps) (simp_all add: Let_def register_node_own_names add_node_loop_own_names)

lemma add_node_keeps:
  "name_index g x = Some v \<Longrightarrow> name_index (add_node dep deps g) x = Some v"
  by (cases deps) (simp_all add: Let_def register_node_keeps add_node_loop_keeps)

lemma add_node_relationships:
  "relationships (add_node dep deps g)
     = relationships g \<union> Pair dep ` set (case deps of None \<Rightarrow> [] | Some ds \<Rightarrow> ds)"
  by (cases deps)
     (simp_all add: Let_def register_node_relationships add_node_loop_relationships)

lemma add_node_registers:
  assumes "own_names g"
    and "inj_on name (ran (name_index g) \<union> insert dep (set (case deps of None \<Rightarrow> [] | Some ds \<Rightarrow> ds)))"
      (is "inj_on name ?A")
    and "d \<in> insert dep (set (case deps of None \<Rightarrow> [] | Some ds \<Rightarrow> ds))"
  shows "d \<in> ran (name_index (add_node dep deps g))"
proof -
  have named: "\<And>x v. name_index g x = Some v \<Longrightarrow> name v = x \<and> v \<in> ?A"
    using assms(1) by (auto simp: own_names_def ran_def)
  have dep: "name_index (register_node dep g) (name dep) = Some dep"
    by (rule register_node_registers [OF named _ assms(2)]) simp_all
  have named1: "\<And>x v. name_index (register_node dep g) x = Some v \<Longrightarrow> name v = x \<and> v \<in> ?A"
    by (rule register_node_named [OF named]) simp_all
  show ?thesis
  proof (cases "d = dep")
    case True
    have "name_index (add_node dep deps g) (name dep) = Some dep"
      using dep by (cases deps) (simp_all add: Let_def add_node_loop_keeps)
    then show ?thesis using True by (auto simp: ran_def)
  next
    case False
    with assms(3) obtain ds where ds: "deps = Some ds" "d \<in> set ds"
      by (cases deps) auto
    then have ne: "ds \<noteq> []" by auto
    have "set ds \<subseteq> ?A" using ds by auto
    from add_node_loop_registers [OF assms(2) this named1 ds(2)]
    have "name_index (add_node dep deps g) (name d) = Some d"
      using ds ne by (simp add: Let_def)
    then show ?thesis by (auto simp: ran_def)
  qed
qed

lemma add_node_no_dangling:
  assumes "own_names g" and "no_dangling g" and "clash_free (Add_node dep deps) g"
  shows "no_dangling (add_node dep deps g)"
proof -
  have old: "v \<in> ran (name_index (add_node dep deps g))" if "v \<in> ran (name_index g)" for v
    using that by (auto simp: ran_def intro: add_node_keeps)
  have new: "d \<in> ran (name_index (add_node dep deps g))"
    if "d \<in> insert dep (set (case deps of None \<Rightarrow> [] | Some ds \<Rightarrow> ds))" for d
    using add_node_registers [OF assms(1) _ that] assms(3) by simp
  show ?thesis
    unfolding no_dangling_def add_node_relationships
    using assms(2) old new by (auto simp: no_dangling_def)
qed

lemma add_edges_relationships:
  "relationships (fold (\<lambda>d g'. add_edge n d g') ds g) = relationships g \<union> Pair n ` set ds"
  by (induction ds arbitrary: g) (auto simp: add_edge_def)

lemma add_edges_name_index:
  "name_index (fold (\<lambda>d g'. add_edge n d g') ds g) = name_index g"
  by (induction ds arbitrary: g) (auto simp: add_edge_def)

lemma add_edges_own_names:
  "own_names (fold (\<lambda>d g'. add_edge n d g') ds g) = own_names g"
  by (induction ds arbitrary: g) (simp_all add: add_edge_own_names)

lemma after_own_names: "own_names g \<Longrightarrow> own_names (after c g)"
  by (cases c)
     (simp_all add: add_node_own_names add_dependencies_def add_relationship_def get_by_name_def
        get_dependents_def get_dependencies_def add_edges_own_names add_edge_own_names
        split: option.splits)

lemma after_no_dangling:
  assumes "own_names g" and "no_dangling g" and "clash_free c g"
  shows "no_dangling (after c g)"
proof (cases c)
  case (Add_node dep deps)
  then show ?thesis using assms by (simp add: add_node_no_dangling)
next
  case (Add_dependencies nm ds)
  then show ?thesis using assms
    by (auto simp: add_dependencies_def no_dangling_def add_edges_relationships
          add_edges_name_index ran_def split: option.splits)
next
  case (Add_relationship a b)
  then show ?thesis using assms(2)
    by (auto simp: add_relationship_def no_dangling_def add_edge_def ran_def split: option.splits)
qed (use assms(2) in \<open>simp_all add: get_by_name_def get_dependents_def get_dependencies_def
       split: option.splits\<close>)

lemma fold_after_no_dangling:
  "own_names g \<Longrightarrow> no_dangling g \<Longrightarrow> clash_free_run cs g \<Longrightarrow> no_dangling (fold after cs g)"
  by (induction cs arbitrary: g) (simp_all add: after_own_names after_no_dangling)

lemma no_dangling_edges_without_name_clash:
  "clash_free_run cs DepGraph_init \<Longrightarrow> no_dangling (run cs)"
  unfolding run_def
  by (rule fold_after_no_dangling) (simp_all add: own_names_def no_dangling_def DepGraph_init_def)

lemma no_dangling_graph_ab: "no_dangling graph_ab"
  unfolding graph_ab_def
  by (rule no_dangling_edges_without_name_clash)
     (simp add: DepGraph_init_def node_a1_def node_b_def)

section \<open>Queries and failures\<close>

text \<open>
  Claim C5. For names \<open>x\<close> and \<open>y\<close> registered in \<open>name_index\<close>, both queries
  return, and the node under \<open>y\<close> is in \<^verbatim>\<open>get_dependencies(x)\<close> exactly when the
  node under \<open>x\<close> is in \<^verbatim>\<open>get_dependents(y)\<close>. This holds of every graph, reachable
  or not.
\<close>

theorem query_symmetry:
  "name_index g x = Some nx \<Longrightarrow> name_index g y = Some ny \<Longrightarrow>
   \<exists>D E. get_dependencies x g = (Inr D, g) \<and> get_dependents y g = (Inr E, g)
        \<and> (ny \<in> D \<longleftrightarrow> nx \<in> E)"
  by (force simp: get_dependencies_def get_dependents_def)

text \<open>Claim C5 at the graph with the one edge from \<^verbatim>\<open>"a"\<close> to \<^verbatim>\<open>"b"\<close>.\<close>

theorem query_symmetry_witness:
  "name_index graph_ab ''a'' = Some node_a1 \<and> name_index graph_ab ''b'' = Some node_b
   \<and> (\<exists>D E. get_dependencies ''a'' graph_ab = (Inr D, graph_ab)
           \<and> get_dependents ''b'' graph_ab = (Inr E, graph_ab)
           \<and> (node_b \<in> D \<longleftrightarrow> node_a1 \<in> E))"
proof -
  have a: "name_index graph_ab ''a'' = Some node_a1" by (simp add: graph_ab_name_index)
  have b: "name_index graph_ab ''b'' = Some node_b" by (simp add: graph_ab_name_index)
  from query_symmetry [OF a b] a b show ?thesis by blast
qed

text \<open>
  Claim C6. For a name that is no key of \<open>name_index\<close>, \<^verbatim>\<open>get_by_name\<close> raises
  \<^verbatim>\<open>KeyError\<close>, and \<^verbatim>\<open>add_dependencies\<close> raises \<^verbatim>\<open>KeyError\<close> and
  leaves the graph as it was. \<^verbatim>\<open>add_relationship\<close> raises \<^verbatim>\<open>AssertionError\<close>
  when either name is missing, leaving the graph as it was, and when both are present it
  returns and adds the one pair of the two registered nodes.
\<close>

theorem unknown_name_failures:
  "(name_index g nm = None \<longrightarrow>
      get_by_name nm g = (Inl KeyError, g) \<and> add_dependencies nm ds g = (Inl KeyError, g))
   \<and> (name_index g a = None \<or> name_index g b = None \<longrightarrow>
        add_relationship a b g = (Inl AssertionError, g))
   \<and> (name_index g a = Some na \<and> name_index g b = Some nb \<longrightarrow>
        add_relationship a b g
          = (Inr (), g\<lparr>relationships := insert (na, nb) (relationships g)\<rparr>))"
  by (auto simp: get_by_name_def add_dependencies_def add_relationship_def add_edge_def
        split: option.splits)

text \<open>Claim C6 at a graph that knows \<^verbatim>\<open>"a"\<close> and \<^verbatim>\<open>"b"\<close> and not \<^verbatim>\<open>"z"\<close>.\<close>

theorem unknown_name_failures_witness:
  "name_index graph_ab ''z'' = None
   \<and> get_by_name ''z'' graph_ab = (Inl KeyError, graph_ab)
   \<and> add_dependencies ''z'' [node_b] graph_ab = (Inl KeyError, graph_ab)
   \<and> add_relationship ''z'' ''b'' graph_ab = (Inl AssertionError, graph_ab)
   \<and> name_index graph_ab ''b'' = Some node_b \<and> name_index graph_ab ''a'' = Some node_a1
   \<and> add_relationship ''b'' ''a'' graph_ab
       = (Inr (), graph_ab\<lparr>relationships := insert (node_b, node_a1) (relationships graph_ab)\<rparr>)"
proof -
  have z: "name_index graph_ab ''z'' = None" by (simp add: graph_ab_name_index)
  have a: "name_index graph_ab ''a'' = Some node_a1" by (simp add: graph_ab_name_index)
  have b: "name_index graph_ab ''b'' = Some node_b" by (simp add: graph_ab_name_index)
  from unknown_name_failures [of graph_ab "''z''" "[node_b]" "''z''" "''b''"] z
  have 1: "get_by_name ''z'' graph_ab = (Inl KeyError, graph_ab)"
    "add_dependencies ''z'' [node_b] graph_ab = (Inl KeyError, graph_ab)"
    "add_relationship ''z'' ''b'' graph_ab = (Inl AssertionError, graph_ab)"
    by blast+
  from unknown_name_failures [of graph_ab "''z''" "[]" "''b''" "''a''" node_b node_a1] a b
  have 2: "add_relationship ''b'' ''a'' graph_ab
       = (Inr (), graph_ab\<lparr>relationships := insert (node_b, node_a1) (relationships graph_ab)\<rparr>)"
    by blast
  from z a b 1 2 show ?thesis by blast
qed

text \<open>
  Claim C10. \<^verbatim>\<open>get_dependents\<close> and \<^verbatim>\<open>get_dependencies\<close> never change the
  graph, and for a name that is no key of \<open>name_index\<close> both raise \<^verbatim>\<open>KeyError\<close>,
  as \<^verbatim>\<open>get_by_name\<close> does, instead of returning an empty set.
\<close>

theorem queries_unknown_name:
  "snd (get_dependents nm g) = g \<and> snd (get_dependencies nm g) = g
   \<and> (name_index g nm = None \<longrightarrow>
        get_dependents nm g = (Inl KeyError, g)
      \<and> get_dependencies nm g = (Inl KeyError, g)
      \<and> get_by_name nm g = (Inl KeyError, g))"
  by (simp add: get_dependents_def get_dependencies_def get_by_name_def split: option.splits)

text \<open>Claim C10 at the unknown name \<^verbatim>\<open>"z"\<close>.\<close>

theorem queries_unknown_name_witness:
  "name_index graph_ab ''z'' = None
   \<and> get_dependents ''z'' graph_ab = (Inl KeyError, graph_ab)
   \<and> get_dependencies ''z'' graph_ab = (Inl KeyError, graph_ab)
   \<and> get_by_name ''z'' graph_ab = (Inl KeyError, graph_ab)"
proof -
  have z: "name_index graph_ab ''z'' = None" by (simp add: graph_ab_name_index)
  from queries_unknown_name [of "''z''" graph_ab] z show ?thesis by blast
qed

section \<open>Extraction\<close>

text \<open>
  Claim C7. For an argument that has the attribute \<^verbatim>\<open>__dependencies__\<close>,
  \<^verbatim>\<open>extract_dependencies\<close> returns the value of the attribute as it is, and the
  result is the same whatever \<^verbatim>\<open>inspect.signature\<close> would give or raise: the
  signature is not looked at.
\<close>

theorem extract_dependencies_explicit:
  "dependencies_attr dependent = Some m \<Longrightarrow>
     extract_dependencies dependent = Inr m
   \<and> extract_dependencies (dependent\<lparr>signature := s\<rparr>) = Inr m"
  by (simp add: extract_dependencies_def)

text \<open>Claim C7 at a callable that declares one dependency and has no signature to inspect.\<close>

theorem extract_dependencies_explicit_witness:
  "dependencies_attr declared_callable = Some [(''a'', int_dep)]
   \<and> extract_dependencies declared_callable = Inr [(''a'', int_dep)]
   \<and> extract_dependencies (declared_callable\<lparr>signature := Inr []\<rparr>) = Inr [(''a'', int_dep)]"
proof -
  have h: "dependencies_attr declared_callable = Some [(''a'', int_dep)]"
    by (simp add: declared_callable_def)
  from extract_dependencies_explicit [OF h] h show ?thesis by blast
qed

text \<open>
  Claim C8. For a callable without the attribute, whose parameters are \<open>ps\<close>,
  \<^verbatim>\<open>extract_dependencies\<close> returns one entry for each parameter, in order and under
  the parameter's name. The type of the entry is the annotation of the parameter. Its
  factory is the factory of the default when the default is a \<^verbatim>\<open>Dependency\<close>, and
  the annotation otherwise.
\<close>

theorem extract_dependencies_signature:
  "dependencies_attr dependent = None \<Longrightarrow> signature dependent = Inr ps \<Longrightarrow>
   \<exists>deps. extract_dependencies dependent = Inr deps
     \<and> map fst deps = map fst ps
     \<and> (\<forall>i < length ps.
          type (snd (deps ! i)) = annotation (snd (ps ! i))
        \<and> factory (snd (deps ! i)) =
            (case default (snd (ps ! i)) of
               Dependency_instance d \<Rightarrow> factory d
             | Other v \<Rightarrow> annotation (snd (ps ! i))))"
  by (auto simp: extract_dependencies_def split_beta comp_def)

text \<open>
  Claim C8 at the example of the specification: the parameters \<^verbatim>\<open>a: int\<close> and
  \<^verbatim>\<open>b: int = Dependency(factory=make_b, type=int)\<close>.
\<close>

theorem extract_dependencies_signature_witness:
  "dependencies_attr example_callable = None
   \<and> extract_dependencies example_callable
       = Inr [(''a'', \<lparr>factory = Obj ''int'', type = Obj ''int''\<rparr>),
              (''b'', \<lparr>factory = Obj ''make_b'', type = Obj ''int''\<rparr>)]"
proof -
  let ?ps = "[(''a'', \<lparr>annotation = Obj ''int'', default = Other Parameter_empty\<rparr>),
              (''b'', \<lparr>annotation = Obj ''int'',
                       default = Dependency_instance \<lparr>factory = Obj ''make_b'', type = Obj ''int''\<rparr>\<rparr>)]"
  have h: "dependencies_attr example_callable = None" by (simp add: example_callable_def)
  have s: "signature example_callable = Inr ?ps" by (simp add: example_callable_def)
  from extract_dependencies_signature [OF h s] obtain deps where d: "extract_dependencies example_callable = Inr deps"
    and n: "map fst deps = map fst ?ps"
    and e: "\<forall>i < length ?ps.
          type (snd (deps ! i)) = annotation (snd (?ps ! i))
        \<and> factory (snd (deps ! i)) =
            (case default (snd (?ps ! i)) of
               Dependency_instance d \<Rightarrow> factory d
             | Other v \<Rightarrow> annotation (snd (?ps ! i)))"
    by blast
  from n obtain x y where xy: "deps = [x, y]" "fst x = ''a''" "fst y = ''b''"
    by (auto simp: map_eq_Cons_conv)
  from e [rule_format, of 0] xy have "type (snd x) = Obj ''int''" "factory (snd x) = Obj ''int''"
    by simp_all
  moreover from e [rule_format, of 1] xy have "type (snd y) = Obj ''int''" "factory (snd y) = Obj ''make_b''"
    by simp_all
  ultimately have "deps = [(''a'', \<lparr>factory = Obj ''int'', type = Obj ''int''\<rparr>),
              (''b'', \<lparr>factory = Obj ''make_b'', type = Obj ''int''\<rparr>)]"
    using xy by (cases x, cases y) auto
  with d h show ?thesis by simp
qed

text \<open>
  Claim C9. A parameter without annotation, whose default is no \<^verbatim>\<open>Dependency\<close>,
  neither makes \<^verbatim>\<open>extract_dependencies\<close> raise nor is it left out: the result has
  as many entries as there are parameters, and the entry of this parameter has
  \<^verbatim>\<open>inspect.Parameter.empty\<close> as its type and as its factory.
\<close>

theorem extract_dependencies_unannotated:
  "dependencies_attr dependent = None \<Longrightarrow> signature dependent = Inr ps \<Longrightarrow>
   (p_name, p) \<in> set ps \<Longrightarrow> annotation p = Parameter_empty \<Longrightarrow> default p = Other v \<Longrightarrow>
   \<exists>deps. extract_dependencies dependent = Inr deps
     \<and> length deps = length ps
     \<and> (p_name, \<lparr>factory = Parameter_empty, type = Parameter_empty\<rparr>) \<in> set deps
     \<and> (distinct (map fst ps) \<longrightarrow>
          map_of deps p_name = Some \<lparr>factory = Parameter_empty, type = Parameter_empty\<rparr>)"
proof -
  assume attr: "dependencies_attr dependent = None" and sig: "signature dependent = Inr ps"
    and mem: "(p_name, p) \<in> set ps"
    and ann: "annotation p = Parameter_empty" and dflt: "default p = Other v"
  let ?dep = "\<lambda>p. \<lparr>factory = (case default p of
                                  Dependency_instance d \<Rightarrow> factory d
                                | Other _ \<Rightarrow> annotation p),
                     type = annotation p\<rparr>"
  let ?deps = "map (\<lambda>(p_name, p). (p_name, ?dep p)) ps"
  have res: "extract_dependencies dependent = Inr ?deps"
    using attr sig by (simp add: extract_dependencies_def)
  have dep: "?dep p = \<lparr>factory = Parameter_empty, type = Parameter_empty\<rparr>"
    using ann dflt by simp
  have "(p_name, ?dep p) \<in> set ?deps"
    using mem by force
  then have entry: "(p_name, \<lparr>factory = Parameter_empty, type = Parameter_empty\<rparr>) \<in> set ?deps"
    using dep by simp
  have lookup: "map_of ?deps p_name = Some \<lparr>factory = Parameter_empty, type = Parameter_empty\<rparr>"
    if "distinct (map fst ps)"
  proof -
    have "map_of ps p_name = Some p" using that mem by simp
    then have "map_of ?deps p_name = Some (?dep p)"
      by (simp add: map_of_map)
    then show ?thesis using dep by simp
  qed
  show ?thesis
    using res entry lookup by (intro exI [of _ ?deps]) simp
qed

text \<open>Claim C9 at a callable with the one parameter \<^verbatim>\<open>x=3\<close>.\<close>

theorem extract_dependencies_unannotated_witness:
  "dependencies_attr unannotated_callable = None
   \<and> (\<exists>deps. extract_dependencies unannotated_callable = Inr deps
     \<and> length deps = 1
     \<and> map_of deps ''x'' = Some \<lparr>factory = Parameter_empty, type = Parameter_empty\<rparr>)"
proof -
  let ?p = "\<lparr>annotation = Parameter_empty, default = Other (Obj ''3'')\<rparr>"
  have h: "dependencies_attr unannotated_callable = None" by (simp add: unannotated_callable_def)
  have s: "signature unannotated_callable = Inr [(''x'', ?p)]"
    by (simp add: unannotated_callable_def)
  from extract_dependencies_unannotated [OF h s, of "''x''" ?p "Obj ''3''"] h show ?thesis by auto
qed

end
